theory Spec2Isabelle
  imports Complex_Main "HOL-Library.Char_ord"
begin

section \<open>Strings\<close>


definition char_lower :: "char \<Rightarrow> char" where
  "char_lower c =
     (let n = (of_char c :: nat)
      in if (65 \<le> n \<and> n \<le> 90) \<or> (192 \<le> n \<and> n \<le> 222 \<and> n \<noteq> 215)
         then char_of (n + 32) else c)"

definition str_lower :: "string \<Rightarrow> string" where
  "str_lower s = map char_lower s"


definition is_space :: "char \<Rightarrow> bool" where
  "is_space c =
     (let n = (of_char c :: nat)
      in (9 \<le> n \<and> n \<le> 13) \<or> (28 \<le> n \<and> n \<le> 32) \<or> n = 133 \<or> n = 160)"

definition str_strip :: "string \<Rightarrow> string" where
  "str_strip s = rev (dropWhile is_space (rev (dropWhile is_space s)))"

section \<open>Phone cleaner (cleaners/field_cleaners/phone_cleaner.py)\<close>





section \<open>Email cleaner (cleaners/field_cleaners/email_cleaner.py)\<close>

text \<open>
  The regular expressions of the Python \<open>re\<close> module that the cleaner needs:
  character classes (a list of inclusive code point ranges), alternation, sequence and
  star. \<open>re_match\<close> decides a match by derivatives, consuming the whole string;
  since the pattern ends with \<open>$\<close> this is what \<open>re.match\<close> decides.
\<close>

datatype rexp =
    Zero
  | One
  | Cls "(char \<times> char) list"
  | Alt rexp rexp
  | Times rexp rexp
  | Star rexp

definition in_class :: "(char \<times> char) list \<Rightarrow> char \<Rightarrow> bool" where
  "in_class rs c = list_ex (\<lambda>(lo, hi). lo \<le> c \<and> c \<le> hi) rs"

fun nullable :: "rexp \<Rightarrow> bool" where
  "nullable Zero = False"
| "nullable One = True"
| "nullable (Cls rs) = False"
| "nullable (Alt r s) = (nullable r \<or> nullable s)"
| "nullable (Times r s) = (nullable r \<and> nullable s)"
| "nullable (Star r) = True"

fun deriv :: "char \<Rightarrow> rexp \<Rightarrow> rexp" where
  "deriv c Zero = Zero"
| "deriv c One = Zero"
| "deriv c (Cls rs) = (if in_class rs c then One else Zero)"
| "deriv c (Alt r s) = Alt (deriv c r) (deriv c s)"
| "deriv c (Times r s) =
     (if nullable r then Alt (Times (deriv c r) s) (deriv c s)
      else Times (deriv c r) s)"
| "deriv c (Star r) = Times (deriv c r) (Star r)"

fun re_match :: "rexp \<Rightarrow> string \<Rightarrow> bool" where
  "re_match r [] = nullable r"
| "re_match r (c # cs) = re_match (deriv c r) cs"

text \<open>
  \<open>r+\<close> is \<open>r\<close> followed by \<open>r*\<close>; a literal character is the class
  of that character alone; \<open>$\<close> (without \<open>re.MULTILINE\<close>) matches at the
  end of the string and also just before a newline that ends the string.
\<close>

definition Plus :: "rexp \<Rightarrow> rexp" where
  "Plus r = Times r (Star r)"

definition Chr :: "char \<Rightarrow> rexp" where
  "Chr c = Cls [(c, c)]"

definition Dollar :: rexp where
  "Dollar = Alt One (Chr (CHR 0x0A))"

definition local_class :: "(char \<times> char) list" where
  "local_class = [(CHR ''a'', CHR ''z''), (CHR ''A'', CHR ''Z''), (CHR ''0'', CHR ''9''),
     (CHR ''.'', CHR ''.''), (CHR ''_'', CHR ''_''), (CHR ''%'', CHR ''%''),
     (CHR ''+'', CHR ''+''), (CHR ''-'', CHR ''-'')]"

definition domain_class :: "(char \<times> char) list" where
  "domain_class = [(CHR ''a'', CHR ''z''), (CHR ''A'', CHR ''Z''), (CHR ''0'', CHR ''9''),
     (CHR ''.'', CHR ''.''), (CHR ''-'', CHR ''-'')]"

definition alpha_class :: "(char \<times> char) list" where
  "alpha_class = [(CHR ''a'', CHR ''z''), (CHR ''A'', CHR ''Z'')]"

text \<open>
  \<open>EMAIL_PATTERN = r"^[a-zA-Z0-9._%+-]+@[a-zA-Z0-9.-]+\.[a-zA-Z]{2,}$"\<close>;
  the leading \<open>^\<close> is the start of the string, where \<open>re.match\<close> begins.
\<close>

definition EMAIL_PATTERN :: rexp where
  "EMAIL_PATTERN =
     Times (Plus (Cls local_class))
       (Times (Chr (CHR ''@''))
         (Times (Plus (Cls domain_class))
           (Times (Chr (CHR ''.''))
             (Times (Cls alpha_class) (Times (Cls alpha_class)
               (Times (Star (Cls alpha_class)) Dollar))))))"

text \<open>
  \<open>clean\<close>: \<open>None\<close> and the empty string are falsy and give \<open>nan\<close>; the
  \<open>except\<close> branch of the source cannot be reached from a string.
\<close>

definition clean :: "string option \<Rightarrow> string" where
  "clean email =
     (case email of
        None \<Rightarrow> ''nan''
      | Some e \<Rightarrow>
          if e = [] then ''nan''
          else let cleaned = str_lower (str_strip e)
               in if \<not> re_match EMAIL_PATTERN cleaned then ''nan'' else cleaned)"

section \<open>Sale predicates (validators/sales_validator.py)\<close>

text \<open>
  A sale is a Python \<open>dict\<close> from field names to values. The values that reach the
  price predicates are \<open>None\<close>, integers, floats and strings. A float is idealised
  as an exact rational, with \<open>PyNaN\<close> for the not-a-number that pandas uses for a
  missing cell; rounding and infinities are not modelled. \<open>bool\<close> behaves as the
  integers 0 and 1 and is not a case of its own.
\<close>

datatype pyval = PyNone | PyInt int | PyFloat rat | PyNaN | PyStr string

datatype py_error = TypeError

text \<open>Truth value testing, as \<open>or\<close> and \<open>if\<close> apply it.\<close>

fun truthy :: "pyval \<Rightarrow> bool" where
  "truthy PyNone = False"
| "truthy (PyInt n) = (n \<noteq> 0)"
| "truthy (PyFloat x) = (x \<noteq> 0)"
| "truthy PyNaN = True"
| "truthy (PyStr s) = (s \<noteq> [])"

text \<open>\<open>a or b\<close>: the first operand when it is truthy, the second otherwise.\<close>

definition py_or :: "pyval \<Rightarrow> pyval \<Rightarrow> pyval" where
  "py_or a b = (if truthy a then a else b)"

text \<open>\<open>d.get(k)\<close>: the value stored under \<open>k\<close>, \<open>None\<close> when the key is absent.\<close>

definition dict_get :: "(string \<rightharpoonup> pyval) \<Rightarrow> string \<Rightarrow> pyval" where
  "dict_get d k = (case d k of None \<Rightarrow> PyNone | Some v \<Rightarrow> v)"

text \<open>
  The arithmetic of the predicates. An operand of the wrong type raises
  \<open>TypeError\<close>; every comparison with not-a-number is false.
\<close>

fun py_ge_zero :: "pyval \<Rightarrow> py_error + bool" where
  "py_ge_zero (PyInt n) = Inr (n \<ge> 0)"
| "py_ge_zero (PyFloat x) = Inr (x \<ge> 0)"
| "py_ge_zero PyNaN = Inr False"
| "py_ge_zero PyNone = Inl TypeError"
| "py_ge_zero (PyStr s) = Inl TypeError"

fun py_mul :: "pyval \<Rightarrow> pyval \<Rightarrow> py_error + pyval" where
  "py_mul (PyInt a) (PyInt b) = Inr (PyInt (a * b))"
| "py_mul (PyInt a) (PyFloat b) = Inr (PyFloat (of_int a * b))"
| "py_mul (PyFloat a) (PyInt b) = Inr (PyFloat (a * of_int b))"
| "py_mul (PyFloat a) (PyFloat b) = Inr (PyFloat (a * b))"
| "py_mul PyNaN (PyInt b) = Inr PyNaN"
| "py_mul PyNaN (PyFloat b) = Inr PyNaN"
| "py_mul PyNaN PyNaN = Inr PyNaN"
| "py_mul (PyInt a) PyNaN = Inr PyNaN"
| "py_mul (PyFloat a) PyNaN = Inr PyNaN"
| "py_mul (PyStr s) (PyInt b) = Inr (PyStr (concat (replicate (nat b) s)))"
| "py_mul (PyInt a) (PyStr s) = Inr (PyStr (concat (replicate (nat a) s)))"
| "py_mul _ _ = Inl TypeError"

fun py_sub :: "pyval \<Rightarrow> pyval \<Rightarrow> py_error + pyval" where
  "py_sub (PyInt a) (PyInt b) = Inr (PyInt (a - b))"
| "py_sub (PyInt a) (PyFloat b) = Inr (PyFloat (of_int a - b))"
| "py_sub (PyFloat a) (PyInt b) = Inr (PyFloat (a - of_int b))"
| "py_sub (PyFloat a) (PyFloat b) = Inr (PyFloat (a - b))"
| "py_sub PyNaN (PyInt b) = Inr PyNaN"
| "py_sub PyNaN (PyFloat b) = Inr PyNaN"
| "py_sub PyNaN PyNaN = Inr PyNaN"
| "py_sub (PyInt a) PyNaN = Inr PyNaN"
| "py_sub (PyFloat a) PyNaN = Inr PyNaN"
| "py_sub _ _ = Inl TypeError"

fun py_abs :: "pyval \<Rightarrow> py_error + pyval" where
  "py_abs (PyInt a) = Inr (PyInt \<bar>a\<bar>)"
| "py_abs (PyFloat a) = Inr (PyFloat \<bar>a\<bar>)"
| "py_abs PyNaN = Inr PyNaN"
| "py_abs _ = Inl TypeError"

text \<open>\<open>x < 0.01\<close>.\<close>

fun py_lt_tolerance :: "pyval \<Rightarrow> py_error + bool" where
  "py_lt_tolerance (PyInt a) = Inr (of_int a < (1 / 100 :: rat))"
| "py_lt_tolerance (PyFloat a) = Inr (a < 1 / 100)"
| "py_lt_tolerance PyNaN = Inr False"
| "py_lt_tolerance _ = Inl TypeError"

text \<open>
  \<open>validate_prices\<close>: \<open>and\<close> evaluates its second operand only when the first is
  true; an exception is caught, reported and answered with \<open>False\<close>.
\<close>

definition validate_prices :: "(string \<rightharpoonup> pyval) \<Rightarrow> bool" where
  "validate_prices sale =
     (let unit_price = py_or (dict_get sale ''unit_price'') (dict_get sale ''_unit_price'');
          total_price = py_or (dict_get sale ''total_price'') (dict_get sale ''_total_price'')
      in if unit_price \<noteq> PyNone \<and> total_price \<noteq> PyNone
         then (case py_ge_zero unit_price of
                 Inl e \<Rightarrow> False
               | Inr a \<Rightarrow>
                   if a then (case py_ge_zero total_price of Inl e \<Rightarrow> False | Inr b \<Rightarrow> b)
                   else False)
         else False)"

definition validate_total_price :: "(string \<rightharpoonup> pyval) \<Rightarrow> bool" where
  "validate_total_price sale =
     (let quantity = py_or (dict_get sale ''quantity'') (dict_get sale ''_quantity'');
          unit_price = py_or (dict_get sale ''unit_price'') (dict_get sale ''_unit_price'');
          total_price = py_or (dict_get sale ''total_price'') (dict_get sale ''_total_price'')
      in if quantity = PyNone \<or> unit_price = PyNone \<or> total_price = PyNone then False
         else (case py_mul quantity unit_price of
                 Inl e \<Rightarrow> False
               | Inr expected_total \<Rightarrow>
                   (case py_sub total_price expected_total of
                      Inl e \<Rightarrow> False
                    | Inr diff \<Rightarrow>
                        (case py_abs diff of
                           Inl e \<Rightarrow> False
                         | Inr dev \<Rightarrow>
                             (case py_lt_tolerance dev of Inl e \<Rightarrow> False | Inr b \<Rightarrow> b)))))"

section \<open>Reconciliation (cleaners/sales_cleaner.py)\<close>

text \<open>
  A pandas \<open>DataFrame\<close> is an index (the row labels, integers here) and named
  columns, each holding one cell per row. A cell is missing (\<open>NaN\<close>, \<open>None\<close>,
  \<open>NaT\<close>), a timestamp (an integer instant), a string or an integer.
  A frame is well formed when its column names are distinct and every column has one
  cell per index label.
\<close>

datatype cell = Null | Ts int | Txt string | Num int

record dataframe =
  index :: "int list"
  columns :: "(string \<times> cell list) list"

definition wf_frame :: "dataframe \<Rightarrow> bool" where
  "wf_frame df =
     (distinct (map fst (columns df)) \<and>
      list_all (\<lambda>(name, cells). length cells = length (index df)) (columns df))"

text \<open>\<open>col in df.columns\<close>.\<close>

definition has_column :: "dataframe \<Rightarrow> string \<Rightarrow> bool" where
  "has_column df col = (map_of (columns df) col \<noteq> None)"

text \<open>
  \<open>df[col]\<close>. It raises \<open>KeyError\<close> for a column the frame lacks;
  \<open>clean_data\<close> reads only columns whose presence it has checked.
\<close>

definition get_col :: "dataframe \<Rightarrow> string \<Rightarrow> cell list" where
  "get_col df col = (case map_of (columns df) col of Some cells \<Rightarrow> cells | None \<Rightarrow> [])"

text \<open>\<open>df[col] = cells\<close>: replaces the column, or adds it as the last one.\<close>

definition set_col :: "dataframe \<Rightarrow> string \<Rightarrow> cell list \<Rightarrow> dataframe" where
  "set_col df col cells =
     (if has_column df col
      then df\<lparr>columns := map (\<lambda>(name, old). (name, if name = col then cells else old)) (columns df)\<rparr>
      else df\<lparr>columns := columns df @ [(col, cells)]\<rparr>)"

text \<open>
  \<open>pd.to_datetime(..., errors="coerce")\<close> on one cell. The parser of date strings
  belongs to pandas and is a parameter; a string it rejects becomes \<open>NaT\<close>. A
  column has a datetime dtype when it holds timestamps and \<open>NaT\<close> only.
\<close>

fun to_datetime :: "(string \<Rightarrow> int option) \<Rightarrow> cell \<Rightarrow> cell" where
  "to_datetime parse Null = Null"
| "to_datetime parse (Ts t) = Ts t"
| "to_datetime parse (Txt s) = (case parse s of Some t \<Rightarrow> Ts t | None \<Rightarrow> Null)"
| "to_datetime parse (Num n) = Ts n"

fun is_datetime_cell :: "cell \<Rightarrow> bool" where
  "is_datetime_cell Null = True"
| "is_datetime_cell (Ts t) = True"
| "is_datetime_cell _ = False"

definition is_datetime64_any_dtype :: "cell list \<Rightarrow> bool" where
  "is_datetime64_any_dtype cells = list_all is_datetime_cell cells"

definition ensure_datetime :: "(string \<Rightarrow> int option) \<Rightarrow> dataframe \<Rightarrow> string \<Rightarrow> dataframe" where
  "ensure_datetime parse df col =
     (if \<not> is_datetime64_any_dtype (get_col df col)
      then set_col df col (map (to_datetime parse) (get_col df col))
      else df)"

text \<open>
  Comparison of date cells: a comparison with \<open>NaT\<close> is false. (Between a
  timestamp and a string or an integer pandas raises \<open>TypeError\<close>; after
  \<open>ensure_datetime\<close> this can only happen when the sales table has a
  \<open>hire_date\<close> column of its own, which the results below exclude.)
\<close>

fun cell_lt :: "cell \<Rightarrow> cell \<Rightarrow> bool" where
  "cell_lt (Ts a) (Ts b) = (a < b)"
| "cell_lt _ _ = False"

fun cell_le :: "cell \<Rightarrow> cell \<Rightarrow> bool" where
  "cell_le (Ts a) (Ts b) = (a \<le> b)"
| "cell_le _ _ = False"

text \<open>
  The left join
  \<open>sales_df.merge(employees_df[["employee_id", "hire_date"]], left_on="seller_employee_id",
  right_on="employee_id", how="left", suffixes=("", "_emp"))\<close>,
  reduced to the two columns that \<open>clean_data\<close> reads from it: every sale row, in
  order, is paired with each employee row whose \<open>employee_id\<close> equals its
  \<open>seller_employee_id\<close>, in employee order, or with a missing hire date when there
  is none. The result carries a fresh index 0, 1, 2, ...: a row is addressed by its
  position in the list. With the suffixes given, \<open>merged["hire_date"]\<close> is the
  sales table's own column when it has one of that name.
\<close>

definition join_row :: "(cell \<times> cell) list \<Rightarrow> cell \<Rightarrow> cell list" where
  "join_row emps key =
     (let hires = map snd (filter (\<lambda>(employee_id, hire_date). employee_id = key) emps)
      in if hires = [] then [Null] else hires)"

definition merge :: "dataframe \<Rightarrow> dataframe \<Rightarrow> (cell \<times> cell) list" where
  "merge sales_df employees_df =
     (let emps = zip (get_col employees_df ''employee_id'') (get_col employees_df ''hire_date'');
          own = (if has_column sales_df ''hire_date''
                 then map Some (get_col sales_df ''hire_date'')
                 else map (\<lambda>_. None) (index sales_df))
      in concat (map (\<lambda>(key, sale_date, own_hire).
                        map (\<lambda>hire. (sale_date, case own_hire of Some h \<Rightarrow> h | None \<Rightarrow> hire))
                            (join_row emps key))
                     (zip (get_col sales_df ''seller_employee_id'')
                          (zip (get_col sales_df ''sale_date'') own))))"

text \<open>
  \<open>df.at[label, col] = value\<close>: the cell of column \<open>col\<close> in every row that
  carries the label; when no row carries it, the assignment enlarges the frame by a row
  with that label, the value in \<open>col\<close> and missing cells elsewhere.
\<close>

definition set_at :: "dataframe \<Rightarrow> int \<Rightarrow> string \<Rightarrow> cell \<Rightarrow> dataframe" where
  "set_at df label col v =
     (if label \<in> set (index df)
      then df\<lparr>columns :=
             map (\<lambda>(name, cells).
                    (name, if name = col
                           then map (\<lambda>(l, c). if l = label then v else c) (zip (index df) cells)
                           else cells))
                 (columns df)\<rparr>
      else df\<lparr>index := index df @ [label],
              columns := map (\<lambda>(name, cells). (name, cells @ [if name = col then v else Null]))
                             (columns df)\<rparr>)"

text \<open>
  The body of the loop \<open>for idx in invalid_sales_idx\<close>: the sale date is read from
  the merged row at \<open>idx\<close>, the employees hired by then are selected in table
  order, and the first one, if any, is written into the sales table at label
  \<open>idx\<close>.
\<close>

definition reassign :: "dataframe \<Rightarrow> (cell \<times> cell) list \<Rightarrow> dataframe \<Rightarrow> nat \<Rightarrow> dataframe" where
  "reassign employees_df merged sales_df idx =
     (let sale_date = fst (merged ! idx);
          valid_emps = filter (\<lambda>(employee_id, hire_date). cell_le hire_date sale_date)
                         (zip (get_col employees_df ''employee_id'')
                              (get_col employees_df ''hire_date''))
      in case valid_emps of
           [] \<Rightarrow> sales_df
         | (new_emp_id, _) # _ \<Rightarrow> set_at sales_df (int idx) ''seller_employee_id'' new_emp_id)"

datatype warning = Missing_sales_columns "string list" | Missing_employee_columns "string list"

text \<open>
  \<open>clean_data\<close> returns the sales table; the second component is what it logged.
\<close>

definition clean_data ::
  "(string \<Rightarrow> int option) \<Rightarrow> dataframe \<Rightarrow> dataframe \<Rightarrow> dataframe \<times> warning list" where
  "clean_data parse sales_df employees_df =
     (let missing_sales = filter (\<lambda>col. \<not> has_column sales_df col) [''sale_date'', ''seller_employee_id''];
          missing_emps = filter (\<lambda>col. \<not> has_column employees_df col) [''employee_id'', ''hire_date'']
      in if missing_sales \<noteq> [] then (sales_df, [Missing_sales_columns missing_sales])
         else if missing_emps \<noteq> [] then (sales_df, [Missing_employee_columns missing_emps])
         else
           let sales_df' = ensure_datetime parse sales_df ''sale_date'';
               employees_df' = ensure_datetime parse employees_df ''hire_date'';
               merged = merge sales_df' employees_df';
               invalid_sales_idx = filter (\<lambda>i. cell_lt (fst (merged ! i)) (snd (merged ! i)))
                                     [0..<length merged]
           in (foldl (reassign employees_df' merged) sales_df' invalid_sales_idx, []))"

section \<open>Vocabulary of the results\<close>

subsection \<open>Regular languages\<close>

text \<open>
  The language of a regular expression, to say what a match means: \<open>re_match\<close>
  accepts exactly the strings of \<open>lang\<close>.
\<close>

definition conc :: "string set \<Rightarrow> string set \<Rightarrow> string set" where
  "conc A B = {u @ v | u v. u \<in> A \<and> v \<in> B}"

inductive_set star :: "string set \<Rightarrow> string set" for A :: "string set" where
  star_empty: "[] \<in> star A"
| star_step: "u \<in> A \<Longrightarrow> v \<in> star A \<Longrightarrow> u @ v \<in> star A"

fun lang :: "rexp \<Rightarrow> string set" where
  "lang Zero = {}"
| "lang One = {[]}"
| "lang (Cls rs) = {[c] | c. in_class rs c}"
| "lang (Alt r s) = lang r \<union> lang s"
| "lang (Times r s) = conc (lang r) (lang s)"
| "lang (Star r) = star (lang r)"

subsection \<open>The reconciliation rule\<close>

text \<open>
  The rule of reconciliation in the words of the specification, over the two tables
  as lists of rows after the coercion of their date columns: an employee row is
  (employee_id, hire_date), a sale row is (seller_employee_id, sale_date). A sale is
  invalid when some employee row carries its seller's identifier and a hire date
  strictly after the sale date. The employee to reassign to is the first one, in
  table order, hired on or before the sale date. \<open>spec_seller\<close> is the seller a
  sale should end with.
\<close>

definition coerced_employees :: "(string \<Rightarrow> int option) \<Rightarrow> dataframe \<Rightarrow> (cell \<times> cell) list" where
  "coerced_employees parse employees_df =
     zip (get_col employees_df ''employee_id'')
         (map (to_datetime parse) (get_col employees_df ''hire_date''))"

definition coerced_sales :: "(string \<Rightarrow> int option) \<Rightarrow> dataframe \<Rightarrow> (cell \<times> cell) list" where
  "coerced_sales parse sales_df =
     zip (get_col sales_df ''seller_employee_id'')
         (map (to_datetime parse) (get_col sales_df ''sale_date''))"

definition sale_invalid :: "(cell \<times> cell) list \<Rightarrow> cell \<Rightarrow> cell \<Rightarrow> bool" where
  "sale_invalid emps seller sale_date =
     list_ex (\<lambda>(employee_id, hire_date). employee_id = seller \<and> cell_lt sale_date hire_date) emps"

definition first_valid_employee :: "(cell \<times> cell) list \<Rightarrow> cell \<Rightarrow> cell option" where
  "first_valid_employee emps sale_date =
     (case filter (\<lambda>(employee_id, hire_date). cell_le hire_date sale_date) emps of
        [] \<Rightarrow> None
      | (employee_id, _) # _ \<Rightarrow> Some employee_id)"

definition spec_seller :: "(cell \<times> cell) list \<Rightarrow> cell \<times> cell \<Rightarrow> cell" where
  "spec_seller emps sale =
     (case sale of (seller, sale_date) \<Rightarrow>
        if sale_invalid emps seller sale_date
        then (case first_valid_employee emps sale_date of Some e \<Rightarrow> e | None \<Rightarrow> seller)
        else seller)"

text \<open>
  The conditions on the input. \<open>required_columns\<close> is the guard of
  \<open>clean_data\<close>. \<open>reconcilable\<close> adds that both frames are well formed and that
  the sales table has no \<open>hire_date\<close> column of its own. \<open>default_index\<close>: the
  row labels are 0, 1, 2, ... in order, as \<open>read_csv\<close> gives them.
  \<open>at_most_one_match\<close>: no seller identifier occurs more than once among the
  employee identifiers.
\<close>

definition required_columns :: "dataframe \<Rightarrow> dataframe \<Rightarrow> bool" where
  "required_columns sales_df employees_df =
     (has_column sales_df ''sale_date'' \<and> has_column sales_df ''seller_employee_id'' \<and>
      has_column employees_df ''employee_id'' \<and> has_column employees_df ''hire_date'')"

definition reconcilable :: "dataframe \<Rightarrow> dataframe \<Rightarrow> bool" where
  "reconcilable sales_df employees_df =
     (wf_frame sales_df \<and> wf_frame employees_df \<and> required_columns sales_df employees_df \<and>
      \<not> has_column sales_df ''hire_date'')"

definition default_index :: "dataframe \<Rightarrow> bool" where
  "default_index df = (index df = map int [0..<length (index df)])"

definition at_most_one_match :: "cell list \<Rightarrow> cell list \<Rightarrow> bool" where
  "at_most_one_match employee_ids sellers =
     list_all (\<lambda>key. length (filter (\<lambda>employee_id. employee_id = key) employee_ids) \<le> 1) sellers"

text \<open>
  Auxiliary: the employee rows of a frame, and the hire date that the join attaches to
  a seller identifier when at most one employee row matches it.
\<close>

definition employee_rows :: "dataframe \<Rightarrow> (cell \<times> cell) list" where
  "employee_rows employees_df =
     zip (get_col employees_df ''employee_id'') (get_col employees_df ''hire_date'')"

definition hire_of :: "(cell \<times> cell) list \<Rightarrow> cell \<Rightarrow> cell" where
  "hire_of emps key =
     (case filter (\<lambda>(employee_id, hire_date). employee_id = key) emps of
        [] \<Rightarrow> Null
      | (_, hire_date) # _ \<Rightarrow> hire_date)"

subsection \<open>Example tables\<close>

text \<open>
  Three sales at time 500. Employee 1 was hired at time 100, employee 2 at time 900
  (after the sale attributed to that employee), employee 3 at time 200. In
  \<open>duplicated_employees\<close>
  the row of employee 1 occurs twice; \<open>filtered_sales\<close> is a sales table that has
  lost its first row and kept the labels 1 and 2; \<open>text_sales\<close> holds its dates as
  strings, as \<open>read_csv\<close> delivers them.
\<close>

definition example_sales :: dataframe where
  "example_sales =
     \<lparr>index = [0, 1, 2],
      columns = [(''sale_id'', [Txt ''SALE1'', Txt ''SALE2'', Txt ''SALE3'']),
                 (''seller_employee_id'', [Txt ''EMP1'', Txt ''EMP2'', Txt ''EMP3'']),
                 (''sale_date'', [Ts 500, Ts 500, Ts 500])]\<rparr>"

definition example_employees :: dataframe where
  "example_employees =
     \<lparr>index = [0, 1, 2],
      columns = [(''employee_id'', [Txt ''EMP1'', Txt ''EMP2'', Txt ''EMP3'']),
                 (''hire_date'', [Ts 100, Ts 900, Ts 200])]\<rparr>"

definition duplicated_employees :: dataframe where
  "duplicated_employees =
     \<lparr>index = [0, 1, 2, 3],
      columns = [(''employee_id'', [Txt ''EMP1'', Txt ''EMP1'', Txt ''EMP2'', Txt ''EMP3'']),
                 (''hire_date'', [Ts 100, Ts 100, Ts 900, Ts 200])]\<rparr>"



section \<open>Phone cleaner: results\<close>








section \<open>Email cleaner: results\<close>

lemma nil_in_conc: "[] \<in> conc A B \<longleftrightarrow> [] \<in> A \<and> [] \<in> B"
  by (auto simp: conc_def)

lemma cons_in_conc:
  "c # w \<in> conc A B \<longleftrightarrow>
     ([] \<in> A \<and> c # w \<in> B) \<or> (\<exists>u v. w = u @ v \<and> c # u \<in> A \<and> v \<in> B)"
proof
  assume "c # w \<in> conc A B"
  then obtain u v where uv: "c # w = u @ v" "u \<in> A" "v \<in> B"
    by (auto simp: conc_def)
  show "([] \<in> A \<and> c # w \<in> B) \<or> (\<exists>u v. w = u @ v \<and> c # u \<in> A \<and> v \<in> B)"
  proof (cases u)
    case Nil
    with uv show ?thesis by simp
  next
    case (Cons a u')
    with uv have "w = u' @ v" "c # u' \<in> A" by auto
    with uv(3) show ?thesis by blast
  qed
next
  assume "([] \<in> A \<and> c # w \<in> B) \<or> (\<exists>u v. w = u @ v \<and> c # u \<in> A \<and> v \<in> B)"
  then show "c # w \<in> conc A B"
  proof
    assume "[] \<in> A \<and> c # w \<in> B"
    then have "[] @ (c # w) \<in> conc A B" unfolding conc_def by blast
    then show ?thesis by simp
  next
    assume "\<exists>u v. w = u @ v \<and> c # u \<in> A \<and> v \<in> B"
    then obtain u v where "w = u @ v" "c # u \<in> A" "v \<in> B" by blast
    then have "(c # u) @ v \<in> conc A B" unfolding conc_def by blast
    with \<open>w = u @ v\<close> show ?thesis by simp
  qed
qed

lemma cons_in_star:
  "c # w \<in> star A \<longleftrightarrow> (\<exists>u v. w = u @ v \<and> c # u \<in> A \<and> v \<in> star A)"
proof
  assume "c # w \<in> star A"
  then show "\<exists>u v. w = u @ v \<and> c # u \<in> A \<and> v \<in> star A"
  proof (induction "c # w" rule: star.induct)
    case (star_step u v)
    show ?case
    proof (cases u)
      case Nil
      with star_step show ?thesis by simp
    next
      case (Cons a u')
      with star_step.hyps(1,2,4) show ?thesis by auto
    qed
  qed
next
  assume "\<exists>u v. w = u @ v \<and> c # u \<in> A \<and> v \<in> star A"
  then obtain u v where "w = u @ v" "c # u \<in> A" "v \<in> star A" by blast
  then have "(c # u) @ v \<in> star A" by (blast intro: star_step)
  with \<open>w = u @ v\<close> show "c # w \<in> star A" by simp
qed

lemma nullable_lang: "nullable r \<longleftrightarrow> [] \<in> lang r"
  by (induction r) (auto simp: nil_in_conc intro: star_empty)

lemma deriv_lang: "w \<in> lang (deriv c r) \<longleftrightarrow> c # w \<in> lang r"
proof (induction r arbitrary: w)
  case (Times r s)
  have left: "w \<in> conc (lang (deriv c r)) (lang s) \<longleftrightarrow>
      (\<exists>u v. w = u @ v \<and> c # u \<in> lang r \<and> v \<in> lang s)"
    by (auto simp: conc_def Times.IH(1))
  show ?case
    unfolding deriv.simps lang.simps cons_in_conc nullable_lang
    by (cases "[] \<in> lang r") (auto simp: left Times.IH(2))
next
  case (Star r)
  have "w \<in> conc (lang (deriv c r)) (star (lang r)) \<longleftrightarrow>
      (\<exists>u v. w = u @ v \<and> c # u \<in> lang r \<and> v \<in> star (lang r))"
    by (auto simp: conc_def Star.IH)
  then show ?case
    by (simp add: cons_in_star)
qed auto

lemma re_match_lang: "re_match r s \<longleftrightarrow> s \<in> lang r"
  by (induction s arbitrary: r) (auto simp: nullable_lang deriv_lang)

lemma star_class: "w \<in> star (lang (Cls rs)) \<longleftrightarrow> list_all (in_class rs) w"
proof
  assume "w \<in> star (lang (Cls rs))"
  then show "list_all (in_class rs) w"
    by (induction rule: star.induct) auto
next
  assume "list_all (in_class rs) w"
  then show "w \<in> star (lang (Cls rs))"
  proof (induction w)
    case Nil
    show ?case by (rule star_empty)
  next
    case (Cons c w)
    then have "[c] \<in> lang (Cls rs)" "w \<in> star (lang (Cls rs))" by auto
    then have "[c] @ w \<in> star (lang (Cls rs))" by (rule star_step)
    then show ?case by simp
  qed
qed

lemma plus_class:
  "w \<in> lang (Plus (Cls rs)) \<longleftrightarrow> w \<noteq> [] \<and> list_all (in_class rs) w"
proof (cases w)
  case Nil
  then show ?thesis by (simp add: Plus_def nil_in_conc)
next
  case (Cons c u)
  have "c # u \<in> conc (lang (Cls rs)) (star (lang (Cls rs)))
        \<longleftrightarrow> in_class rs c \<and> u \<in> star (lang (Cls rs))"
    by (auto simp: cons_in_conc)
  then have "c # u \<in> lang (Plus (Cls rs))
        \<longleftrightarrow> in_class rs c \<and> list_all (in_class rs) u"
    unfolding star_class by (simp add: Plus_def)
  with Cons show ?thesis by simp
qed

lemma of_char_char_of_small: "n < 256 \<Longrightarrow> (of_char (char_of (n :: nat)) :: nat) = n"
  by simp

lemma char_lower_idem: "char_lower (char_lower c) = char_lower c"
proof -
  define n where "n = (of_char c :: nat)"
  show ?thesis
  proof (cases "(65 \<le> n \<and> n \<le> 90) \<or> (192 \<le> n \<and> n \<le> 222 \<and> n \<noteq> 215)")
    case True
    then have lc: "char_lower c = char_of (n + 32)"
      by (simp add: char_lower_def n_def Let_def)
    from True have "n + 32 < 256" by auto
    then have "(of_char (char_of (n + 32)) :: nat) = n + 32"
      by (rule of_char_char_of_small)
    with True have "char_lower (char_of (n + 32)) = char_of (n + 32)"
      by (auto simp: char_lower_def Let_def)
    with lc show ?thesis by simp
  next
    case False
    have "char_lower c =
        (if (65 \<le> n \<and> n \<le> 90) \<or> (192 \<le> n \<and> n \<le> 222 \<and> n \<noteq> 215)
         then char_of (n + 32) else c)"
      unfolding char_lower_def Let_def n_def ..
    with False have "char_lower c = c" by (simp only: if_False)
    then show ?thesis by simp
  qed
qed

lemma is_space_char_lower: "is_space (char_lower c) = is_space c"
proof -
  define n where "n = (of_char c :: nat)"
  show ?thesis
  proof (cases "(65 \<le> n \<and> n \<le> 90) \<or> (192 \<le> n \<and> n \<le> 222 \<and> n \<noteq> 215)")
    case True
    then have lc: "char_lower c = char_of (n + 32)"
      by (simp add: char_lower_def n_def Let_def)
    from True have "n + 32 < 256" by auto
    then have "(of_char (char_of (n + 32)) :: nat) = n + 32"
      by (rule of_char_char_of_small)
    with True have "\<not> is_space (char_of (n + 32))" "\<not> is_space c"
      by (auto simp: is_space_def Let_def n_def)
    with lc show ?thesis by simp
  next
    case False
    have "char_lower c =
        (if (65 \<le> n \<and> n \<le> 90) \<or> (192 \<le> n \<and> n \<le> 222 \<and> n \<noteq> 215)
         then char_of (n + 32) else c)"
      unfolding char_lower_def Let_def n_def ..
    with False have "char_lower c = c" by (simp only: if_False)
    then show ?thesis by simp
  qed
qed

lemma str_lower_idem: "str_lower (str_lower s) = str_lower s"
  by (simp add: str_lower_def char_lower_idem)

lemma dropWhile_space_lower:
  "dropWhile is_space (str_lower s) = str_lower (dropWhile is_space s)"
  by (induction s) (simp_all add: str_lower_def is_space_char_lower)

lemma str_strip_lower: "str_strip (str_lower s) = str_lower (str_strip s)"
proof -
  have "rev (str_lower s) = str_lower (rev s)" for s
    by (simp add: str_lower_def rev_map)
  then show ?thesis
    by (simp add: str_strip_def dropWhile_space_lower)
qed

lemma str_strip_hd: "str_strip s \<noteq> [] \<Longrightarrow> \<not> is_space (hd (str_strip s))"
proof -
  assume ne: "str_strip s \<noteq> []"
  define t where "t = dropWhile is_space s"
  define u where "u = dropWhile is_space (rev t)"
  have su: "str_strip s = rev u" by (simp add: str_strip_def t_def u_def)
  with ne have une: "u \<noteq> []" by simp
  then have tne: "t \<noteq> []" unfolding u_def by auto
  have "\<exists>p. rev t = p @ u"
    unfolding u_def by (metis takeWhile_dropWhile_id)
  then obtain p where "rev t = p @ u" by blast
  then have "t = rev u @ rev p" by (metis rev_append rev_rev_ident)
  with une have "hd t = hd (rev u)" by simp
  moreover have "\<not> is_space (hd t)"
    using tne unfolding t_def by (rule hd_dropWhile)
  ultimately show ?thesis using su by simp
qed

lemma str_strip_last: "str_strip s \<noteq> [] \<Longrightarrow> \<not> is_space (last (str_strip s))"
proof -
  assume ne: "str_strip s \<noteq> []"
  define u where "u = dropWhile is_space (rev (dropWhile is_space s))"
  have su: "str_strip s = rev u" by (simp add: str_strip_def u_def)
  with ne have une: "u \<noteq> []" by simp
  then have "\<not> is_space (hd u)" unfolding u_def by (rule hd_dropWhile)
  with une su show ?thesis by (simp add: last_rev)
qed

lemma str_strip_fixed:
  assumes "s = [] \<or> (\<not> is_space (hd s) \<and> \<not> is_space (last s))"
  shows "str_strip s = s"
proof (cases "s = []")
  case True
  then show ?thesis by (simp add: str_strip_def)
next
  case False
  with assms have h: "\<not> is_space (hd s)" and l: "\<not> is_space (last s)" by auto
  from False h have d1: "dropWhile is_space s = s" by (cases s) auto
  from False l have "\<not> is_space (hd (rev s))" by (simp add: hd_rev)
  with False have "dropWhile is_space (rev s) = rev s" by (cases "rev s") auto
  with d1 show ?thesis by (simp add: str_strip_def)
qed

lemma str_strip_idem: "str_strip (str_strip s) = str_strip s"
  by (rule str_strip_fixed) (use str_strip_hd str_strip_last in blast)

lemma lang_Chr: "lang (Chr c) = {[c]}"
  by (auto simp: Chr_def in_class_def)

lemma lang_Dollar: "lang Dollar = {[], [CHR 0x0A]}"
  by (auto simp: Dollar_def lang_Chr)

lemma in_concD: "w \<in> conc A B \<Longrightarrow> \<exists>u v. w = u @ v \<and> u \<in> A \<and> v \<in> B"
  by (auto simp: conc_def)

lemma times_any:
  "w \<in> lang (Times p r) \<Longrightarrow> \<exists>u v. w = u @ v \<and> u \<in> lang p \<and> v \<in> lang r"
  by (auto dest: in_concD)

lemma times_cls:
  "w \<in> lang (Times (Cls rs) r) \<Longrightarrow> \<exists>c v. w = c # v \<and> in_class rs c \<and> v \<in> lang r"
  by (auto dest: in_concD)

lemma times_chr: "w \<in> lang (Times (Chr c) r) \<Longrightarrow> \<exists>v. w = c # v \<and> v \<in> lang r"
  by (auto simp: lang_Chr dest: in_concD)

lemma email_pattern_shape:
  assumes "s \<in> lang EMAIL_PATTERN"
  shows "\<exists>l d t e. s = l @ ''@'' @ d @ ''.'' @ t @ e
           \<and> l \<noteq> [] \<and> list_all (in_class local_class) l
           \<and> d \<noteq> [] \<and> list_all (in_class domain_class) d
           \<and> 2 \<le> length t \<and> list_all (in_class alpha_class) t
           \<and> (e = [] \<or> e = [CHR 0x0A])"
proof -
  from assms[unfolded EMAIL_PATTERN_def] obtain l r1 where 1: "s = l @ r1"
      "l \<in> lang (Plus (Cls local_class))"
      "r1 \<in> lang (Times (Chr (CHR ''@''))
         (Times (Plus (Cls domain_class))
           (Times (Chr (CHR ''.''))
             (Times (Cls alpha_class) (Times (Cls alpha_class)
               (Times (Star (Cls alpha_class)) Dollar))))))"
    using times_any by blast
  from 1(3) obtain r2 where 2: "r1 = CHR ''@'' # r2"
      "r2 \<in> lang (Times (Plus (Cls domain_class))
           (Times (Chr (CHR ''.''))
             (Times (Cls alpha_class) (Times (Cls alpha_class)
               (Times (Star (Cls alpha_class)) Dollar)))))"
    using times_chr by blast
  from 2(2) obtain d r3 where 3: "r2 = d @ r3" "d \<in> lang (Plus (Cls domain_class))"
      "r3 \<in> lang (Times (Chr (CHR ''.''))
             (Times (Cls alpha_class) (Times (Cls alpha_class)
               (Times (Star (Cls alpha_class)) Dollar))))"
    using times_any by blast
  from 3(3) obtain r4 where 4: "r3 = CHR ''.'' # r4"
      "r4 \<in> lang (Times (Cls alpha_class) (Times (Cls alpha_class)
               (Times (Star (Cls alpha_class)) Dollar)))"
    using times_chr by blast
  from 4(2) obtain a r5 where 5: "r4 = a # r5" "in_class alpha_class a"
      "r5 \<in> lang (Times (Cls alpha_class) (Times (Star (Cls alpha_class)) Dollar))"
    using times_cls by blast
  from 5(3) obtain b r6 where 6: "r5 = b # r6" "in_class alpha_class b"
      "r6 \<in> lang (Times (Star (Cls alpha_class)) Dollar)"
    using times_cls by blast
  from 6(3) obtain t' e where 7: "r6 = t' @ e" "t' \<in> lang (Star (Cls alpha_class))"
      "e \<in> lang Dollar"
    using times_any by blast
  define t where "t = a # b # t'"
  have "s = l @ ''@'' @ d @ ''.'' @ t @ e"
    using 1(1) 2(1) 3(1) 4(1) 5(1) 6(1) 7(1) by (simp add: t_def)
  moreover have "l \<noteq> [] \<and> list_all (in_class local_class) l"
    using 1(2) by (simp add: plus_class)
  moreover have "d \<noteq> [] \<and> list_all (in_class domain_class) d"
    using 3(2) by (simp add: plus_class)
  moreover have "2 \<le> length t \<and> list_all (in_class alpha_class) t"
    using 5(2) 6(2) 7(2) star_class[of t' alpha_class] by (simp add: t_def)
  moreover have "e = [] \<or> e = [CHR 0x0A]"
    using 7(3) by (simp add: lang_Dollar)
  ultimately show ?thesis by blast
qed

lemma clean_nan: "clean (Some ''nan'') = ''nan''"
  by code_simp

lemma email_pattern_not_nil: "\<not> re_match EMAIL_PATTERN []"
  by code_simp

lemma is_space_newline: "is_space (CHR 0x0A)"
  by code_simp

lemma clean_cases:
  "clean x = ''nan'' \<or>
   (\<exists>e. x = Some e \<and> clean x = str_lower (str_strip e)
        \<and> re_match EMAIL_PATTERN (str_lower (str_strip e)))"
  by (cases x) (auto simp: clean_def Let_def)

lemma clean_fixed:
  assumes "re_match EMAIL_PATTERN c" and "str_lower c = c" and "str_strip c = c"
  shows "clean (Some c) = c"
proof -
  from assms(1) email_pattern_not_nil have "c \<noteq> []" by auto
  with assms show ?thesis by (simp add: clean_def Let_def)
qed

text \<open>
  C8: for every input (a string or \<open>None\<close>), \<open>clean\<close> returns the sentinel
  \<open>nan\<close> or a string that matches the email pattern, is lower case (\<open>lower\<close>
  leaves it unchanged) and has the shape local part, \<open>@\<close>, domain, a dot and a
  top-level domain of at least two letters; and \<open>clean\<close> is idempotent.
\<close>

theorem clean_email_shape_idempotent:
  "(clean x = ''nan'' \<or>
     (re_match EMAIL_PATTERN (clean x) \<and> str_lower (clean x) = clean x \<and>
      (\<exists>l d t. clean x = l @ ''@'' @ d @ ''.'' @ t
         \<and> l \<noteq> [] \<and> list_all (in_class local_class) l
         \<and> d \<noteq> [] \<and> list_all (in_class domain_class) d
         \<and> 2 \<le> length t \<and> list_all (in_class alpha_class) t)))
   \<and> clean (Some (clean x)) = clean x"
proof (cases "clean x = ''nan''")
  case True
  then show ?thesis by (simp add: clean_nan)
next
  case False
  with clean_cases[of x] obtain e where c: "clean x = str_lower (str_strip e)"
    and m: "re_match EMAIL_PATTERN (clean x)" by auto
  have low: "str_lower (clean x) = clean x"
    by (simp add: c str_lower_idem)
  have strip: "str_strip (clean x) = clean x"
    by (simp add: c str_strip_lower str_strip_idem)
  from m email_pattern_not_nil have ne: "clean x \<noteq> []" by auto
  from m have "clean x \<in> lang EMAIL_PATTERN" by (simp add: re_match_lang)
  from email_pattern_shape[OF this] obtain l d t e'
    where sh: "clean x = l @ ''@'' @ d @ ''.'' @ t @ e'"
      "l \<noteq> []" "list_all (in_class local_class) l"
      "d \<noteq> []" "list_all (in_class domain_class) d"
      "2 \<le> length t" "list_all (in_class alpha_class) t"
      "e' = [] \<or> e' = [CHR 0x0A]" by blast
  have "e' = []"
  proof (rule ccontr)
    assume "e' \<noteq> []"
    with sh(8) have "e' = [CHR 0x0A]" by simp
    with sh(1) have "last (clean x) = CHR 0x0A" by simp
    moreover have "\<not> is_space (last (clean x))"
      using str_strip_last[of "clean x"] ne strip by simp
    ultimately show False using is_space_newline by simp
  qed
  with sh have "\<exists>l d t. clean x = l @ ''@'' @ d @ ''.'' @ t
         \<and> l \<noteq> [] \<and> list_all (in_class local_class) l
         \<and> d \<noteq> [] \<and> list_all (in_class domain_class) d
         \<and> 2 \<le> length t \<and> list_all (in_class alpha_class) t"
    by auto
  moreover have "clean (Some (clean x)) = clean x"
    using m low strip by (rule clean_fixed)
  ultimately show ?thesis using m low by blast
qed

theorem clean_email_shape_idempotent_witness:
  "clean (Some ''  TEST@Example.com '') = ''test@example.com''
   \<and> clean (Some (clean (Some ''  TEST@Example.com ''))) = ''test@example.com''
   \<and> clean (Some ''invalidemail'') = ''nan''
   \<and> clean (Some (clean (Some ''invalidemail''))) = ''nan''"
proof -
  have a: "clean (Some ''  TEST@Example.com '') = ''test@example.com''"
    by code_simp
  have b: "clean (Some ''invalidemail'') = ''nan''"
    by code_simp
  have "clean (Some (clean (Some ''  TEST@Example.com ''))) = clean (Some ''  TEST@Example.com '')"
    using clean_email_shape_idempotent[of "Some ''  TEST@Example.com ''"] by (rule conjunct2)
  moreover have "clean (Some (clean (Some ''invalidemail''))) = clean (Some ''invalidemail'')"
    using clean_email_shape_idempotent[of "Some ''invalidemail''"] by (rule conjunct2)
  ultimately show ?thesis using a b by simp
qed

section \<open>Sale predicates: results\<close>

lemma py_or_falsy: "\<not> truthy a \<Longrightarrow> py_or a b = b"
  by (simp add: py_or_def)

lemma py_or_truthy: "truthy a \<Longrightarrow> py_or a b = a"
  by (simp add: py_or_def)

lemma dict_get_absent: "d k = None \<Longrightarrow> dict_get d k = PyNone"
  by (simp add: dict_get_def)

text \<open>
  What the two price predicates compute when the public fields hold numbers other
  than zero: then the fallback to the underscore names is not taken.
\<close>

lemma validate_prices_nonzero:
  assumes "sale ''unit_price'' = Some (PyFloat u)" and "u \<noteq> 0"
    and "sale ''total_price'' = Some (PyFloat t)" and "t \<noteq> 0"
  shows "validate_prices sale \<longleftrightarrow> 0 \<le> u \<and> 0 \<le> t"
  using assms by (auto simp: validate_prices_def dict_get_def py_or_def)

lemma validate_total_price_nonzero:
  assumes "sale ''quantity'' = Some (PyInt q)" and "q \<noteq> 0"
    and "sale ''unit_price'' = Some (PyFloat u)" and "u \<noteq> 0"
    and "sale ''total_price'' = Some (PyFloat t)" and "t \<noteq> 0"
  shows "validate_total_price sale \<longleftrightarrow> \<bar>t - of_int q * u\<bar> < 1 / 100"
  using assms by (simp add: validate_total_price_def dict_get_def py_or_def)

text \<open>
  C6: with all three fields present, \<open>validate_total_price\<close> should be true exactly
  when the total is within 0.01 of quantity times unit price. The two examples of the
  claim hold, and so does the exclusive bound:
\<close>

lemma validate_total_price_examples:
  "validate_total_price
     (map_of [(''quantity'', PyInt 2), (''unit_price'', PyFloat 10), (''total_price'', PyFloat 20)])"
  "\<not> validate_total_price
     (map_of [(''quantity'', PyInt 2), (''unit_price'', PyFloat 10),
              (''total_price'', PyFloat (2002 / 100))])"
  "\<not> validate_total_price
     (map_of [(''quantity'', PyInt 2), (''unit_price'', PyFloat 10),
              (''total_price'', PyFloat (2001 / 100))])"
  by (simp_all add: validate_total_price_def dict_get_def py_or_def)

text \<open>
  C6 fails where a present field is zero: a sale of 3 items at unit price 0.0 with
  total 0.0 has its total equal to quantity times unit price, and the predicate
  answers \<open>False\<close>, because the zero prices are falsy and are read as missing.
\<close>

theorem validate_total_price_zero_price:
  "validate_total_price
     (map_of [(''quantity'', PyInt 3), (''unit_price'', PyFloat 0), (''total_price'', PyFloat 0)])
   = False"
  by (simp add: validate_total_price_def dict_get_def py_or_def)

text \<open>
  C7: \<open>validate_prices\<close> should be true exactly when both prices are present and not
  negative, zero included. It fails at a present unit price of 0.0 (with total price
  20.0): the zero is falsy, the underscore name is absent, and the answer is
  \<open>False\<close>.
\<close>

theorem validate_prices_zero_price:
  "validate_prices (map_of [(''unit_price'', PyFloat 0), (''total_price'', PyFloat 20)]) = False"
  by (simp add: validate_prices_def dict_get_def py_or_def)

text \<open>
  C10: a field read by \<open>sale.get(name) or sale.get('_' + name)\<close> whose public value
  is falsy (0, 0.0, the empty string) is replaced by the value under the underscore
  name, hence by \<open>None\<close> when that name is absent, as if the field were missing. So a
  falsy quantity makes \<open>validate_total_price\<close> false, and a falsy unit price makes
  \<open>validate_prices\<close> (and \<open>validate_total_price\<close>) false, whatever the other
  fields hold.
\<close>

theorem falsy_field_read_as_missing:
  "(\<not> truthy (dict_get sale name) \<and> sale (CHR ''_'' # name) = None
      \<longrightarrow> py_or (dict_get sale name) (dict_get sale (CHR ''_'' # name)) = PyNone)
   \<and> (\<not> truthy (dict_get sale ''quantity'') \<and> sale ''_quantity'' = None
      \<longrightarrow> validate_total_price sale = False)
   \<and> (\<not> truthy (dict_get sale ''unit_price'') \<and> sale ''_unit_price'' = None
      \<longrightarrow> validate_prices sale = False \<and> validate_total_price sale = False)"
proof (intro conjI impI)
  assume "\<not> truthy (dict_get sale name) \<and> sale (CHR ''_'' # name) = None"
  then show "py_or (dict_get sale name) (dict_get sale (CHR ''_'' # name)) = PyNone"
    by (simp add: py_or_falsy dict_get_absent)
next
  assume "\<not> truthy (dict_get sale ''quantity'') \<and> sale ''_quantity'' = None"
  then have "py_or (dict_get sale ''quantity'') (dict_get sale ''_quantity'') = PyNone"
    by (simp add: py_or_falsy dict_get_absent)
  then show "validate_total_price sale = False"
    by (simp add: validate_total_price_def)
next
  assume "\<not> truthy (dict_get sale ''unit_price'') \<and> sale ''_unit_price'' = None"
  then have u: "py_or (dict_get sale ''unit_price'') (dict_get sale ''_unit_price'') = PyNone"
    by (simp add: py_or_falsy dict_get_absent)
  then show "validate_prices sale = False"
    by (simp add: validate_prices_def)
  from u show "validate_total_price sale = False"
    by (simp add: validate_total_price_def)
qed

theorem falsy_field_read_as_missing_witness:
  "validate_total_price
     (map_of [(''quantity'', PyInt 0), (''unit_price'', PyFloat 10), (''total_price'', PyFloat 0)])
     = False
   \<and> validate_prices (map_of [(''unit_price'', PyFloat 0), (''total_price'', PyFloat 20)]) = False"
proof -
  let ?a = "map_of [(''quantity'', PyInt 0), (''unit_price'', PyFloat 10), (''total_price'', PyFloat 0)]"
  let ?b = "map_of [(''unit_price'', PyFloat 0), (''total_price'', PyFloat 20)]"
  have "\<not> truthy (dict_get ?a ''quantity'') \<and> ?a ''_quantity'' = None"
    by (simp add: dict_get_def)
  with falsy_field_read_as_missing[of ?a "''quantity''"]
  have "validate_total_price ?a = False" by blast
  moreover have "\<not> truthy (dict_get ?b ''unit_price'') \<and> ?b ''_unit_price'' = None"
    by (simp add: dict_get_def)
  with falsy_field_read_as_missing[of ?b "''unit_price''"]
  have "validate_prices ?b = False" by blast
  ultimately show ?thesis by blast
qed

section \<open>Reconciliation: results\<close>

subsection \<open>Frames\<close>

lemma map_of_map_values:
  "map_of (map (\<lambda>(k, v). (k, g k v)) kvs) c = map_option (g c) (map_of kvs c)"
  by (induction kvs) auto

lemma has_column_iff: "has_column df c \<longleftrightarrow> c \<in> fst ` set (columns df)"
  by (simp add: has_column_def map_of_eq_None_iff)

lemma get_col_member:
  assumes "distinct (map fst (columns df))" and "(c, cells) \<in> set (columns df)"
  shows "get_col df c = cells"
  using assms by (simp add: get_col_def)

lemma index_set_col: "index (set_col df c xs) = index df"
  by (simp add: set_col_def)

lemma get_col_set_col_same: "get_col (set_col df c xs) c = xs"
proof (cases "has_column df c")
  case True
  then obtain old where "map_of (columns df) c = Some old"
    by (auto simp: has_column_def)
  with True show ?thesis
    by (simp add: get_col_def set_col_def map_of_map_values)
next
  case False
  then have "map_of (columns df) c = None" by (simp add: has_column_def)
  with False show ?thesis
    by (simp add: get_col_def set_col_def map_add_def)
qed

lemma get_col_set_col_other: "c' \<noteq> c \<Longrightarrow> get_col (set_col df c xs) c' = get_col df c'"
  by (cases "map_of (columns df) c'")
     (auto simp: get_col_def set_col_def map_of_map_values map_add_def)

lemma has_column_set_col: "has_column (set_col df c xs) c' \<longleftrightarrow> has_column df c' \<or> c' = c"
  by (auto simp: has_column_iff set_col_def image_iff split: prod.splits) force+

lemma set_col_set_col:
  "has_column df c \<Longrightarrow> set_col (set_col df c a) c b = set_col df c b"
proof -
  assume h: "has_column df c"
  then have "has_column (set_col df c a) c" by (simp add: has_column_set_col)
  with h show ?thesis
    by (simp add: set_col_def comp_def case_prod_unfold)
qed

lemma wf_frame_set_col:
  assumes "wf_frame df" and "length xs = length (index df)"
  shows "wf_frame (set_col df c xs)"
proof (cases "has_column df c")
  case True
  have "fst \<circ> (\<lambda>(name, old). (name, if name = c then xs else old)) = fst"
    by (auto simp: fun_eq_iff)
  with assms True show ?thesis
    by (auto simp: wf_frame_def set_col_def list_all_iff)
next
  case False
  with assms show ?thesis
    by (auto simp: wf_frame_def set_col_def list_all_iff has_column_iff)
qed

lemma wf_frame_length:
  assumes "wf_frame df" and "has_column df c"
  shows "length (get_col df c) = length (index df)"
proof -
  from assms(2) obtain cells where m: "map_of (columns df) c = Some cells"
    by (auto simp: has_column_def)
  then have "(c, cells) \<in> set (columns df)" by (rule map_of_SomeD)
  with assms(1) have "length cells = length (index df)"
    by (auto simp: wf_frame_def list_all_iff)
  with m show ?thesis by (simp add: get_col_def)
qed

subsection \<open>Coercion of a date column\<close>

lemma to_datetime_datetime_cell: "is_datetime_cell c \<Longrightarrow> to_datetime parse c = c"
  by (cases c) auto

lemma get_col_ensure_datetime_same:
  "get_col (ensure_datetime parse df c) c = map (to_datetime parse) (get_col df c)"
proof (cases "is_datetime64_any_dtype (get_col df c)")
  case True
  then have "map (to_datetime parse) (get_col df c) = get_col df c"
    by (simp add: is_datetime64_any_dtype_def list_all_iff map_idI to_datetime_datetime_cell)
  with True show ?thesis by (simp add: ensure_datetime_def)
next
  case False
  then show ?thesis by (simp add: ensure_datetime_def get_col_set_col_same)
qed

lemma get_col_ensure_datetime_other:
  "c' \<noteq> c \<Longrightarrow> get_col (ensure_datetime parse df c) c' = get_col df c'"
  by (simp add: ensure_datetime_def get_col_set_col_other)

lemma index_ensure_datetime: "index (ensure_datetime parse df c) = index df"
  by (simp add: ensure_datetime_def index_set_col)

lemma has_column_ensure_datetime:
  "has_column df c \<Longrightarrow> has_column (ensure_datetime parse df c) c' \<longleftrightarrow> has_column df c'"
  by (auto simp: ensure_datetime_def has_column_set_col)

lemma wf_frame_ensure_datetime:
  assumes "wf_frame df" and "has_column df c"
  shows "wf_frame (ensure_datetime parse df c)"
  using assms by (simp add: ensure_datetime_def wf_frame_set_col wf_frame_length)

subsection \<open>Writes under the default index\<close>

text \<open>
  When the labels are the positions, \<open>df.at[i, col] = v\<close> updates position
  \<open>i\<close> of the column and the loop updates the seller column position by position.
\<close>

lemma relabel_aligned:
  assumes "length cells = n"
  shows "map (\<lambda>(l, x). if l = int i then v else x) (zip (map int [0..<n]) cells) = cells[i := v]"
  using assms by (auto simp: list_eq_iff_nth_eq nth_list_update)

lemma set_at_aligned:
  assumes wf: "wf_frame df" and idx: "index df = map int [0..<n]" and i: "i < n"
    and that: "has_column df c"
  shows "set_at df (int i) c v = set_col df c ((get_col df c)[i := v])"
proof -
  have mem: "int i \<in> set (index df)" using idx i by simp
  have dist: "distinct (map fst (columns df))" using wf by (simp add: wf_frame_def)
  have "(\<lambda>(name, cells).
            (name, if name = c
                   then map (\<lambda>(l, x). if l = int i then v else x) (zip (index df) cells)
                   else cells)) p
        = (\<lambda>(name, old). (name, if name = c then (get_col df c)[i := v] else old)) p"
    if p: "p \<in> set (columns df)" for p
  proof (cases p)
    case (Pair name cells)
    with p wf have len: "length cells = n"
      using idx by (auto simp: wf_frame_def list_all_iff)
    show ?thesis
    proof (cases "name = c")
      case True
      with Pair p dist have "get_col df c = cells" by (simp add: get_col_member)
      with True Pair len show ?thesis by (simp add: idx relabel_aligned)
    next
      case False
      with Pair show ?thesis by simp
    qed
  qed
  then have "map (\<lambda>(name, cells).
            (name, if name = c
                   then map (\<lambda>(l, x). if l = int i then v else x) (zip (index df) cells)
                   else cells)) (columns df)
        = map (\<lambda>(name, old). (name, if name = c then (get_col df c)[i := v] else old)) (columns df)"
    by (rule map_cong[OF refl])
  with mem that show ?thesis by (simp add: set_at_def set_col_def)
qed

lemma reassign_alt:
  "reassign employees_df merged sales_df idx =
     (case first_valid_employee (employee_rows employees_df) (fst (merged ! idx)) of
        None \<Rightarrow> sales_df
      | Some e \<Rightarrow> set_at sales_df (int idx) ''seller_employee_id'' e)"
  by (simp add: reassign_def first_valid_employee_def employee_rows_def Let_def
      split: list.splits prod.splits)

lemma foldl_updates_length:
  "length (foldl (\<lambda>cs i. case f i of None \<Rightarrow> cs | Some e \<Rightarrow> cs[i := e]) cs idxs) = length cs"
  by (induction idxs arbitrary: cs) (auto split: option.splits)

lemma foldl_updates_nth:
  "j < length cs \<Longrightarrow>
   foldl (\<lambda>cs i. case f i of None \<Rightarrow> cs | Some e \<Rightarrow> cs[i := e]) cs idxs ! j =
     (if j \<in> set idxs then (case f j of None \<Rightarrow> cs ! j | Some e \<Rightarrow> e) else cs ! j)"
proof (induction idxs arbitrary: cs)
  case Nil
  then show ?case by simp
next
  case (Cons i idxs)
  define cs' where "cs' = (case f i of None \<Rightarrow> cs | Some e \<Rightarrow> cs[i := e])"
  have len: "j < length cs'"
    using Cons.prems by (simp add: cs'_def split: option.splits)
  have step: "foldl (\<lambda>cs i. case f i of None \<Rightarrow> cs | Some e \<Rightarrow> cs[i := e]) cs (i # idxs) ! j =
      (if j \<in> set idxs then (case f j of None \<Rightarrow> cs' ! j | Some e \<Rightarrow> e) else cs' ! j)"
    using Cons.IH[OF len] by (simp add: cs'_def)
  have here: "cs' ! j = (if j = i then (case f j of None \<Rightarrow> cs ! j | Some e \<Rightarrow> e) else cs ! j)"
    using Cons.prems by (auto simp: cs'_def split: option.splits)
  show ?case
    unfolding step here by (auto split: option.splits)
qed

lemma foldl_reassign_aligned:
  assumes "wf_frame df" and "index df = map int [0..<n]"
    and "has_column df ''seller_employee_id''" and "\<forall>i\<in>set idxs. i < n"
  shows "foldl (reassign employees_df merged) df idxs =
     set_col df ''seller_employee_id''
       (foldl (\<lambda>cs i. case first_valid_employee (employee_rows employees_df) (fst (merged ! i)) of
                         None \<Rightarrow> cs | Some e \<Rightarrow> cs[i := e])
              (get_col df ''seller_employee_id'') idxs)"
  using assms
proof (induction idxs arbitrary: df)
  case Nil
  have "map (\<lambda>(name, old). (name, if name = ''seller_employee_id''
                then get_col df ''seller_employee_id'' else old)) (columns df) = columns df"
  proof (rule map_idI)
    fix p assume p: "p \<in> set (columns df)"
    obtain name cells where pc: "p = (name, cells)" by (cases p)
    from Nil.prems(1) have "distinct (map fst (columns df))" by (simp add: wf_frame_def)
    with p pc have "name = ''seller_employee_id'' \<Longrightarrow> get_col df ''seller_employee_id'' = cells"
      by (simp add: get_col_member)
    with pc show "(case p of (name, old) \<Rightarrow> (name, if name = ''seller_employee_id''
                then get_col df ''seller_employee_id'' else old)) = p"
      by auto
  qed
  with Nil.prems(3) show ?case by (simp add: set_col_def)
next
  case (Cons i idxs)
  let ?c = "''seller_employee_id''"
  let ?f = "\<lambda>i. first_valid_employee (employee_rows employees_df) (fst (merged ! i))"
  from Cons.prems(4) have i: "i < n" and rest: "\<forall>i\<in>set idxs. i < n" by auto
  show ?case
  proof (cases "?f i")
    case None
    then have "reassign employees_df merged df i = df" by (simp add: reassign_alt)
    with None Cons.IH[OF Cons.prems(1,2,3) rest] show ?thesis by simp
  next
    case (Some e)
    define cs' where "cs' = (get_col df ?c)[i := e]"
    define df' where "df' = set_col df ?c cs'"
    have r: "reassign employees_df merged df i = df'"
      using Some set_at_aligned[OF Cons.prems(1,2) i Cons.prems(3)]
      by (simp add: reassign_alt df'_def cs'_def)
    have len: "length cs' = length (index df)"
      using wf_frame_length[OF Cons.prems(1,3)] by (simp add: cs'_def)
    have wf': "wf_frame df'"
      unfolding df'_def using Cons.prems(1) len by (rule wf_frame_set_col)
    have idx': "index df' = map int [0..<n]"
      using Cons.prems(2) by (simp add: df'_def index_set_col)
    have has': "has_column df' ?c"
      by (simp add: df'_def has_column_set_col)
    have get': "get_col df' ?c = cs'"
      by (simp add: df'_def get_col_set_col_same)
    have "foldl (reassign employees_df merged) df (i # idxs)
          = foldl (reassign employees_df merged) df' idxs"
      by (simp add: r)
    also have "\<dots> = set_col df' ?c
        (foldl (\<lambda>cs i. case ?f i of None \<Rightarrow> cs | Some e \<Rightarrow> cs[i := e]) cs' idxs)"
      using Cons.IH[OF wf' idx' has' rest] by (simp add: get')
    also have "\<dots> = set_col df ?c
        (foldl (\<lambda>cs i. case ?f i of None \<Rightarrow> cs | Some e \<Rightarrow> cs[i := e]) cs' idxs)"
      unfolding df'_def using Cons.prems(3) by (rule set_col_set_col)
    finally show ?thesis using Some by (simp add: cs'_def)
  qed
qed

subsection \<open>The join when no seller matches two employee rows\<close>

lemma cell_lt_Null: "\<not> cell_lt d Null"
  by (cases d) auto

lemma filter_zip_fst:
  "length ids = length hs \<Longrightarrow>
   map fst (filter (\<lambda>(employee_id, hire_date). employee_id = key) (zip ids hs))
     = filter (\<lambda>employee_id. employee_id = key) ids"
  by (induction ids hs rule: list_induct2) auto

lemma one_match_rows:
  assumes "length ids = length hs"
    and "length (filter (\<lambda>employee_id. employee_id = key) ids) \<le> 1"
  shows "length (filter (\<lambda>(employee_id, hire_date). employee_id = key) (zip ids hs)) \<le> 1"
proof -
  have "length (filter (\<lambda>(employee_id, hire_date). employee_id = key) (zip ids hs))
        = length (map fst (filter (\<lambda>(employee_id, hire_date). employee_id = key) (zip ids hs)))"
    by simp
  also have "\<dots> = length (filter (\<lambda>employee_id. employee_id = key) ids)"
    using assms(1) by (simp only: filter_zip_fst)
  finally show ?thesis using assms(2) by simp
qed

lemma join_row_single:
  assumes "length (filter (\<lambda>(employee_id, hire_date). employee_id = key) emps) \<le> 1"
  shows "join_row emps key = [hire_of emps key]"
proof (cases "filter (\<lambda>(employee_id, hire_date). employee_id = key) emps")
  case Nil
  then show ?thesis by (simp add: join_row_def hire_of_def)
next
  case (Cons p ps)
  with assms have "ps = []" by simp
  with Cons show ?thesis by (cases p) (simp add: join_row_def hire_of_def)
qed

lemma sale_invalid_single:
  assumes "length (filter (\<lambda>(employee_id, hire_date). employee_id = key) emps) \<le> 1"
  shows "sale_invalid emps key d \<longleftrightarrow> cell_lt d (hire_of emps key)"
proof -
  have "sale_invalid emps key d \<longleftrightarrow>
        (\<exists>p \<in> set (filter (\<lambda>(employee_id, hire_date). employee_id = key) emps). cell_lt d (snd p))"
    by (auto simp: sale_invalid_def list_ex_iff)
  also have "\<dots> \<longleftrightarrow> cell_lt d (hire_of emps key)"
  proof (cases "filter (\<lambda>(employee_id, hire_date). employee_id = key) emps")
    case Nil
    then show ?thesis by (simp add: hire_of_def cell_lt_Null)
  next
    case (Cons p ps)
    with assms have "ps = []" by simp
    with Cons show ?thesis by (cases p) (simp add: hire_of_def)
  qed
  finally show ?thesis .
qed

text \<open>
  Whatever the employee table, a sale has a flagged row in the join exactly when it is
  invalid in the sense of the rule.
\<close>

lemma flagged_iff_sale_invalid:
  "list_ex (\<lambda>hire. cell_lt sale_date hire) (join_row emps key)
     \<longleftrightarrow> sale_invalid emps key sale_date"
proof -
  let ?hires = "map snd (filter (\<lambda>(employee_id, hire_date). employee_id = key) emps)"
  have "sale_invalid emps key sale_date \<longleftrightarrow> list_ex (\<lambda>hire. cell_lt sale_date hire) ?hires"
    by (auto simp: sale_invalid_def list_ex_iff)
  moreover have "list_ex (\<lambda>hire. cell_lt sale_date hire) (join_row emps key)
      \<longleftrightarrow> list_ex (\<lambda>hire. cell_lt sale_date hire) ?hires"
    by (cases "?hires = []") (simp_all add: join_row_def Let_def cell_lt_Null)
  ultimately show ?thesis by simp
qed

lemma concat_join_single:
  assumes "length ks = length ds" and "length ds = length os"
    and "\<forall>k\<in>set ks. length (filter (\<lambda>(employee_id, hire_date). employee_id = k) emps) \<le> 1"
  shows "concat (map (\<lambda>(key, sale_date, own_hire).
                        map (\<lambda>hire. (sale_date, case own_hire of Some h \<Rightarrow> h | None \<Rightarrow> hire))
                            (join_row emps key))
                     (zip ks (zip ds (map (\<lambda>_. None) os))))
         = map (\<lambda>(k, d). (d, hire_of emps k)) (zip ks ds)"
  using assms
  by (induction ks ds os rule: list_induct3) (simp_all add: join_row_single)

lemma merge_single:
  assumes "\<not> has_column sales_df ''hire_date''"
    and "length (get_col sales_df ''seller_employee_id'') = length (index sales_df)"
    and "length (get_col sales_df ''sale_date'') = length (index sales_df)"
    and "\<forall>k\<in>set (get_col sales_df ''seller_employee_id'').
           length (filter (\<lambda>(employee_id, hire_date). employee_id = k)
                     (employee_rows employees_df)) \<le> 1"
  shows "merge sales_df employees_df =
     map (\<lambda>(k, d). (d, hire_of (employee_rows employees_df) k))
       (zip (get_col sales_df ''seller_employee_id'') (get_col sales_df ''sale_date''))"
  using assms concat_join_single[of "get_col sales_df ''seller_employee_id''"
      "get_col sales_df ''sale_date''" "index sales_df" "employee_rows employees_df"]
  by (simp add: merge_def Let_def employee_rows_def)

subsection \<open>The result of \<open>clean_data\<close> on aligned tables\<close>

lemma employee_rows_ensure_datetime:
  "employee_rows (ensure_datetime parse employees_df ''hire_date'')
     = coerced_employees parse employees_df"
  by (simp add: employee_rows_def coerced_employees_def get_col_ensure_datetime_same
      get_col_ensure_datetime_other)

lemma clean_data_present:
  assumes "required_columns sales_df employees_df"
  shows "clean_data parse sales_df employees_df =
     (let sales_df' = ensure_datetime parse sales_df ''sale_date'';
          employees_df' = ensure_datetime parse employees_df ''hire_date'';
          merged = merge sales_df' employees_df'
      in (foldl (reassign employees_df' merged) sales_df'
            (filter (\<lambda>i. cell_lt (fst (merged ! i)) (snd (merged ! i))) [0..<length merged]), []))"
  using assms by (simp add: clean_data_def required_columns_def Let_def)

lemma merge_aligned:
  assumes wfs: "wf_frame sales_df" and wfe: "wf_frame employees_df"
    and req: "required_columns sales_df employees_df"
    and own: "\<not> has_column sales_df ''hire_date''"
    and one: "at_most_one_match (get_col employees_df ''employee_id'')
                (get_col sales_df ''seller_employee_id'')"
  shows "merge (ensure_datetime parse sales_df ''sale_date'')
           (ensure_datetime parse employees_df ''hire_date'')
         = map (\<lambda>(seller, sale_date).
                  (sale_date, hire_of (coerced_employees parse employees_df) seller))
               (coerced_sales parse sales_df)"
    and "\<forall>k\<in>set (get_col sales_df ''seller_employee_id'').
           length (filter (\<lambda>(employee_id, hire_date). employee_id = k)
                     (coerced_employees parse employees_df)) \<le> 1"
proof -
  define sales' where "sales' = ensure_datetime parse sales_df ''sale_date''"
  define emps' where "emps' = ensure_datetime parse employees_df ''hire_date''"
  define E where "E = coerced_employees parse employees_df"
  define ks where "ks = get_col sales_df ''seller_employee_id''"
  define ds where "ds = map (to_datetime parse) (get_col sales_df ''sale_date'')"
  from req have hs: "has_column sales_df ''sale_date''" "has_column sales_df ''seller_employee_id''"
    and he: "has_column employees_df ''employee_id''" "has_column employees_df ''hire_date''"
    by (simp_all add: required_columns_def)
  have rows: "employee_rows emps' = E"
    by (simp add: emps'_def E_def employee_rows_ensure_datetime)
  have ks': "get_col sales' ''seller_employee_id'' = ks"
    by (simp add: sales'_def ks_def get_col_ensure_datetime_other)
  have ds': "get_col sales' ''sale_date'' = ds"
    by (simp add: sales'_def ds_def get_col_ensure_datetime_same)
  have idx': "index sales' = index sales_df"
    by (simp add: sales'_def index_ensure_datetime)
  have own': "\<not> has_column sales' ''hire_date''"
    using hs(1) own by (simp add: sales'_def has_column_ensure_datetime)
  have lk: "length ks = length (index sales_df)"
    using wf_frame_length[OF wfs hs(2)] by (simp add: ks_def)
  have ld: "length ds = length (index sales_df)"
    using wf_frame_length[OF wfs hs(1)] by (simp add: ds_def)
  have le: "length (get_col employees_df ''employee_id'')
            = length (map (to_datetime parse) (get_col employees_df ''hire_date''))"
    using wf_frame_length[OF wfe he(1)] wf_frame_length[OF wfe he(2)] by simp
  have single: "length (filter (\<lambda>(employee_id, hire_date). employee_id = k) E) \<le> 1"
    if "k \<in> set ks" for k
  proof -
    from one that have "length (filter (\<lambda>employee_id. employee_id = k)
        (get_col employees_df ''employee_id'')) \<le> 1"
      by (simp add: at_most_one_match_def list_all_iff ks_def)
    with le show ?thesis unfolding E_def coerced_employees_def by (rule one_match_rows)
  qed
  then show "\<forall>k\<in>set (get_col sales_df ''seller_employee_id'').
           length (filter (\<lambda>(employee_id, hire_date). employee_id = k)
                     (coerced_employees parse employees_df)) \<le> 1"
    by (simp add: ks_def E_def)
  have "merge sales' emps' = map (\<lambda>(k, d). (d, hire_of E k)) (zip ks ds)"
    using merge_single[of sales' emps'] own' lk ld idx' single
    by (simp add: ks' ds' rows)
  then show "merge (ensure_datetime parse sales_df ''sale_date'')
           (ensure_datetime parse employees_df ''hire_date'')
         = map (\<lambda>(seller, sale_date).
                  (sale_date, hire_of (coerced_employees parse employees_df) seller))
               (coerced_sales parse sales_df)"
    by (simp add: sales'_def emps'_def E_def coerced_sales_def ks_def ds_def)
qed

lemma clean_data_aligned:
  assumes wfs: "wf_frame sales_df" and wfe: "wf_frame employees_df"
    and req: "required_columns sales_df employees_df"
    and own: "\<not> has_column sales_df ''hire_date''"
    and idx: "default_index sales_df"
    and one: "at_most_one_match (get_col employees_df ''employee_id'')
                (get_col sales_df ''seller_employee_id'')"
  shows "clean_data parse sales_df employees_df =
     (set_col (ensure_datetime parse sales_df ''sale_date'') ''seller_employee_id''
        (map (spec_seller (coerced_employees parse employees_df))
             (coerced_sales parse sales_df)), [])"
proof -
  define n where "n = length (index sales_df)"
  define sales' where "sales' = ensure_datetime parse sales_df ''sale_date''"
  define emps' where "emps' = ensure_datetime parse employees_df ''hire_date''"
  define E where "E = coerced_employees parse employees_df"
  define ks where "ks = get_col sales_df ''seller_employee_id''"
  define ds where "ds = map (to_datetime parse) (get_col sales_df ''sale_date'')"
  define merged where "merged = merge sales' emps'"
  from req have hs: "has_column sales_df ''sale_date''" "has_column sales_df ''seller_employee_id''"
    and he: "has_column employees_df ''employee_id''" "has_column employees_df ''hire_date''"
    by (simp_all add: required_columns_def)
  have rows: "employee_rows emps' = E"
    by (simp add: emps'_def E_def employee_rows_ensure_datetime)
  have ks': "get_col sales' ''seller_employee_id'' = ks"
    by (simp add: sales'_def ks_def get_col_ensure_datetime_other)
  have ds': "get_col sales' ''sale_date'' = ds"
    by (simp add: sales'_def ds_def get_col_ensure_datetime_same)
  have idx': "index sales' = map int [0..<n]"
    using idx by (simp add: sales'_def index_ensure_datetime default_index_def n_def)
  have wf': "wf_frame sales'"
    unfolding sales'_def using wfs hs(1) by (rule wf_frame_ensure_datetime)
  have has': "has_column sales' ''seller_employee_id''"
    using hs by (simp add: sales'_def has_column_ensure_datetime)
  have own': "\<not> has_column sales' ''hire_date''"
    using hs(1) own by (simp add: sales'_def has_column_ensure_datetime)
  have lk: "length ks = n"
    using wf_frame_length[OF wfs hs(2)] by (simp add: ks_def n_def)
  have ld: "length ds = n"
    using wf_frame_length[OF wfs hs(1)] by (simp add: ds_def n_def)
  have single: "length (filter (\<lambda>(employee_id, hire_date). employee_id = k) E) \<le> 1"
    if "k \<in> set ks" for k
    using merge_aligned(2)[OF wfs wfe req own one, of parse] that by (simp add: ks_def E_def)
  have m: "merged = map (\<lambda>(k, d). (d, hire_of E k)) (zip ks ds)"
    using merge_aligned(1)[OF wfs wfe req own one, of parse]
    by (simp add: merged_def sales'_def emps'_def E_def coerced_sales_def ks_def ds_def)
  have lm: "length merged = n" using lk ld by (simp add: m)
  have nth_m: "merged ! i = (ds ! i, hire_of E (ks ! i))" if "i < n" for i
    using that lk ld by (simp add: m)
  let ?f = "\<lambda>i. first_valid_employee E (fst (merged ! i))"
  let ?idxs = "filter (\<lambda>i. cell_lt (fst (merged ! i)) (snd (merged ! i))) [0..<length merged]"
  have bound: "\<forall>i\<in>set ?idxs. i < n" by (simp add: lm)
  have fold: "foldl (reassign emps' merged) sales' ?idxs =
      set_col sales' ''seller_employee_id''
        (foldl (\<lambda>cs i. case ?f i of None \<Rightarrow> cs | Some e \<Rightarrow> cs[i := e]) ks ?idxs)"
    using foldl_reassign_aligned[OF wf' idx' has' bound, of emps' merged]
    by (simp add: rows ks')
  have cells: "foldl (\<lambda>cs i. case ?f i of None \<Rightarrow> cs | Some e \<Rightarrow> cs[i := e]) ks ?idxs
      = map (spec_seller E) (zip ks ds)"
  proof (rule nth_equalityI)
    show "length (foldl (\<lambda>cs i. case ?f i of None \<Rightarrow> cs | Some e \<Rightarrow> cs[i := e]) ks ?idxs)
          = length (map (spec_seller E) (zip ks ds))"
      using lk ld by (simp add: foldl_updates_length)
  next
    fix j
    assume "j < length (foldl (\<lambda>cs i. case ?f i of None \<Rightarrow> cs | Some e \<Rightarrow> cs[i := e]) ks ?idxs)"
    then have j: "j < n" using lk by (simp add: foldl_updates_length)
    then have jk: "j < length ks" using lk by simp
    from j lk have "ks ! j \<in> set ks" by simp
    then have inv: "sale_invalid E (ks ! j) (ds ! j) \<longleftrightarrow> cell_lt (ds ! j) (hire_of E (ks ! j))"
      by (intro sale_invalid_single single)
    have memb: "j \<in> set ?idxs \<longleftrightarrow> sale_invalid E (ks ! j) (ds ! j)"
      using j by (simp add: lm nth_m inv)
    have "foldl (\<lambda>cs i. case ?f i of None \<Rightarrow> cs | Some e \<Rightarrow> cs[i := e]) ks ?idxs ! j
        = (if j \<in> set ?idxs then (case ?f j of None \<Rightarrow> ks ! j | Some e \<Rightarrow> e) else ks ! j)"
      using jk by (rule foldl_updates_nth)
    also have "\<dots> = spec_seller E (ks ! j, ds ! j)"
      unfolding memb using j by (simp add: spec_seller_def nth_m)
    also have "\<dots> = map (spec_seller E) (zip ks ds) ! j"
      using j lk ld by simp
    finally show "foldl (\<lambda>cs i. case ?f i of None \<Rightarrow> cs | Some e \<Rightarrow> cs[i := e]) ks ?idxs ! j
        = map (spec_seller E) (zip ks ds) ! j" .
  qed
  have "clean_data parse sales_df employees_df = (foldl (reassign emps' merged) sales' ?idxs, [])"
    using clean_data_present[OF req, of parse]
    by (simp add: Let_def sales'_def emps'_def merged_def)
  also have "\<dots> = (set_col sales' ''seller_employee_id'' (map (spec_seller E) (zip ks ds)), [])"
    by (simp only: fold cells)
  finally show ?thesis
    by (simp add: sales'_def E_def coerced_sales_def ks_def ds_def)
qed



lemma distinct_at_most_one_match:
  assumes "distinct employee_ids"
  shows "at_most_one_match employee_ids sellers"
proof -
  have "length (filter (\<lambda>x. x = k) xs) \<le> 1" if "distinct xs" for xs :: "cell list" and k
    using that
  proof (induction xs)
    case Nil
    show ?case by simp
  next
    case (Cons a xs)
    show ?case
    proof (cases "a = k")
      case True
      with Cons.prems have "k \<notin> set xs" by simp
      then have "filter (\<lambda>x. x = k) xs = []" by (auto simp: filter_empty_conv)
      with True show ?thesis by simp
    next
      case False
      with Cons show ?thesis by simp
    qed
  qed
  with assms show ?thesis by (simp add: at_most_one_match_def list_all_iff)
qed

subsection \<open>The example tables\<close>







subsection \<open>Missing columns\<close>

text \<open>
  C5: if the sales table lacks \<open>sale_date\<close> or \<open>seller_employee_id\<close>, or the
  employee table lacks \<open>employee_id\<close> or \<open>hire_date\<close>, then \<open>clean_data\<close>
  returns the sales table as it received it, without raising, and logs exactly one
  warning, which names the missing columns (of the sales table when it lacks any, of
  the employee table otherwise).
\<close>

theorem clean_data_missing_columns:
  assumes "\<not> required_columns sales_df employees_df"
  shows "fst (clean_data parse sales_df employees_df) = sales_df
     \<and> snd (clean_data parse sales_df employees_df) =
         (if has_column sales_df ''sale_date'' \<and> has_column sales_df ''seller_employee_id''
          then [Missing_employee_columns
                  (filter (\<lambda>col. \<not> has_column employees_df col) [''employee_id'', ''hire_date''])]
          else [Missing_sales_columns
                  (filter (\<lambda>col. \<not> has_column sales_df col) [''sale_date'', ''seller_employee_id''])])"
  using assms by (auto simp: clean_data_def required_columns_def Let_def)

theorem clean_data_missing_columns_witness:
  "\<not> required_columns \<lparr>index = [0], columns = [(''sale_id'', [Txt ''SALE1''])]\<rparr> example_employees
   \<and> clean_data Map.empty \<lparr>index = [0], columns = [(''sale_id'', [Txt ''SALE1''])]\<rparr>
         example_employees
       = (\<lparr>index = [0], columns = [(''sale_id'', [Txt ''SALE1''])]\<rparr>,
          [Missing_sales_columns [''sale_date'', ''seller_employee_id'']])"
proof -
  let ?s = "\<lparr>index = [0], columns = [(''sale_id'', [Txt ''SALE1''])]\<rparr>"
  have n: "\<not> required_columns ?s example_employees"
    by code_simp
  have w: "snd (clean_data Map.empty ?s example_employees)
      = [Missing_sales_columns [''sale_date'', ''seller_employee_id'']]"
    by code_simp
  from clean_data_missing_columns[OF n, of Map.empty]
  have "fst (clean_data Map.empty ?s example_employees) = ?s" by (rule conjunct1)
  with n w show ?thesis by (simp add: prod_eq_iff)
qed

subsection \<open>The other columns\<close>




subsection \<open>Index alignment and reassignment\<close>

text \<open>What the two notions of the rule mean on the employee table.\<close>

lemma first_valid_employee_first:
  "first_valid_employee emps sale_date = Some e \<longleftrightarrow>
     (\<exists>before h after. emps = before @ (e, h) # after \<and> cell_le h sale_date \<and>
        (\<forall>(employee_id, hire_date) \<in> set before. \<not> cell_le hire_date sale_date))"
proof
  assume "first_valid_employee emps sale_date = Some e"
  then obtain h rest where
    "filter (\<lambda>(employee_id, hire_date). cell_le hire_date sale_date) emps = (e, h) # rest"
    by (auto simp: first_valid_employee_def split: list.splits)
  then show "\<exists>before h after. emps = before @ (e, h) # after \<and> cell_le h sale_date \<and>
        (\<forall>(employee_id, hire_date) \<in> set before. \<not> cell_le hire_date sale_date)"
    unfolding filter_eq_Cons_iff by fastforce
next
  assume "\<exists>before h after. emps = before @ (e, h) # after \<and> cell_le h sale_date \<and>
        (\<forall>(employee_id, hire_date) \<in> set before. \<not> cell_le hire_date sale_date)"
  then obtain before h after where e: "emps = before @ (e, h) # after" "cell_le h sale_date"
    and b: "\<forall>(employee_id, hire_date) \<in> set before. \<not> cell_le hire_date sale_date"
    by blast
  from b have "filter (\<lambda>(employee_id, hire_date). cell_le hire_date sale_date) before = []"
    by (auto simp: filter_empty_conv)
  with e show "first_valid_employee emps sale_date = Some e"
    by (simp add: first_valid_employee_def)
qed

lemma first_valid_employee_none:
  "first_valid_employee emps sale_date = None \<longleftrightarrow>
     (\<forall>(employee_id, hire_date) \<in> set emps. \<not> cell_le hire_date sale_date)"
proof -
  have "first_valid_employee emps sale_date = None \<longleftrightarrow>
      filter (\<lambda>(employee_id, hire_date). cell_le hire_date sale_date) emps = []"
    by (simp add: first_valid_employee_def split: list.splits prod.splits)
  then show ?thesis by (auto simp: filter_empty_conv)
qed

lemma sale_invalid_iff:
  "sale_invalid emps seller sale_date \<longleftrightarrow>
     (\<exists>hire_date. (seller, hire_date) \<in> set emps \<and> cell_lt sale_date hire_date)"
  by (auto simp: sale_invalid_def list_ex_iff)




text \<open>
  Row by row, under the same conditions: an invalid sale ends with the first employee
  hired on or before its date, or with its own seller when there is none, and a sale
  that is not invalid keeps its seller.
\<close>

lemma clean_data_rowwise:
  assumes "reconcilable sales_df employees_df" and "default_index sales_df"
    and "at_most_one_match (get_col employees_df ''employee_id'')
           (get_col sales_df ''seller_employee_id'')"
    and "i < length (index sales_df)"
  shows "get_col (fst (clean_data parse sales_df employees_df)) ''seller_employee_id'' ! i
     = spec_seller (coerced_employees parse employees_df)
         (get_col sales_df ''seller_employee_id'' ! i,
          to_datetime parse (get_col sales_df ''sale_date'' ! i))"
proof -
  from assms(1) have wfs: "wf_frame sales_df" and wfe: "wf_frame employees_df"
    and req: "required_columns sales_df employees_df"
    and own: "\<not> has_column sales_df ''hire_date''"
    by (simp_all add: reconcilable_def)
  from req have hs: "has_column sales_df ''sale_date''" "has_column sales_df ''seller_employee_id''"
    by (simp_all add: required_columns_def)
  have res: "fst (clean_data parse sales_df employees_df) =
      set_col (ensure_datetime parse sales_df ''sale_date'') ''seller_employee_id''
        (map (spec_seller (coerced_employees parse employees_df)) (coerced_sales parse sales_df))"
    using clean_data_aligned[OF wfs wfe req own assms(2,3), of parse] by simp
  show ?thesis
    using assms(4) wf_frame_length[OF wfs hs(1)] wf_frame_length[OF wfs hs(2)]
    by (simp add: res get_col_set_col_same coerced_sales_def)
qed

lemma invalid_sale_reassigned:
  assumes "reconcilable sales_df employees_df" and "default_index sales_df"
    and "at_most_one_match (get_col employees_df ''employee_id'')
           (get_col sales_df ''seller_employee_id'')"
    and "i < length (index sales_df)"
    and "sale_invalid (coerced_employees parse employees_df)
           (get_col sales_df ''seller_employee_id'' ! i)
           (to_datetime parse (get_col sales_df ''sale_date'' ! i))"
  shows "get_col (fst (clean_data parse sales_df employees_df)) ''seller_employee_id'' ! i
     = (case first_valid_employee (coerced_employees parse employees_df)
               (to_datetime parse (get_col sales_df ''sale_date'' ! i)) of
          Some e \<Rightarrow> e
        | None \<Rightarrow> get_col sales_df ''seller_employee_id'' ! i)"
  using clean_data_rowwise[OF assms(1-4), of parse] assms(5)
  by (simp add: spec_seller_def)

lemma valid_sale_untouched:
  assumes "reconcilable sales_df employees_df" and "default_index sales_df"
    and "at_most_one_match (get_col employees_df ''employee_id'')
           (get_col sales_df ''seller_employee_id'')"
    and "i < length (index sales_df)"
    and "\<not> sale_invalid (coerced_employees parse employees_df)
           (get_col sales_df ''seller_employee_id'' ! i)
           (to_datetime parse (get_col sales_df ''sale_date'' ! i))"
  shows "get_col (fst (clean_data parse sales_df employees_df)) ''seller_employee_id'' ! i
     = get_col sales_df ''seller_employee_id'' ! i"
  using clean_data_rowwise[OF assms(1-4), of parse] assms(5)
  by (simp add: spec_seller_def)

text \<open>
  C1: every sale flagged invalid is reassigned to the first employee, in table order,
  hired on or before the sale date, when there is one. The code breaks this when an
  employee row is duplicated: the join then has more rows than the sales table, and
  the write addressed by the joined row's position misses the sale. With
  \<open>duplicated_employees\<close>, the second sale is invalid and employee 1 qualifies,
  yet the sale keeps employee 2.
\<close>

theorem clean_data_duplicate_employee_invalid_sale_kept:
  "sale_invalid (coerced_employees Map.empty duplicated_employees) (Txt ''EMP2'') (Ts 500)
   \<and> first_valid_employee (coerced_employees Map.empty duplicated_employees) (Ts 500)
       = Some (Txt ''EMP1'')
   \<and> coerced_sales Map.empty example_sales ! 1 = (Txt ''EMP2'', Ts 500)
   \<and> get_col (fst (clean_data Map.empty example_sales duplicated_employees))
       ''seller_employee_id'' ! 1 = Txt ''EMP2''"
  by code_simp

text \<open>
  C2: a sale is flagged only when it joins an employee hired after its date, and
  sales that are not flagged are never modified. On the same input the third sale is
  not invalid (employee 3 was hired at time 200), and the loop rewrites its seller to
  employee 1: it receives the write meant for the second sale.
\<close>

theorem clean_data_duplicate_employee_valid_sale_modified:
  "\<not> sale_invalid (coerced_employees Map.empty duplicated_employees) (Txt ''EMP3'') (Ts 500)
   \<and> coerced_sales Map.empty example_sales ! 2 = (Txt ''EMP3'', Ts 500)
   \<and> get_col (fst (clean_data Map.empty example_sales duplicated_employees))
       ''seller_employee_id'' ! 2 = Txt ''EMP1''"
  by code_simp

end
